theory Spec2Isabelle
  imports Complex_Main "HOL-Library.Word"
begin

unbundle bit_operations_syntax

section \<open>Values of the host language\<close>

text \<open>
  The live speaking session of \<^verbatim>\<open>src/services/geminiService.ts\<close> runs in a browser.
  Exceptions are values: every \<^verbatim>\<open>throw\<close> of the source, and every exception a platform
  call of the source raises on the inputs considered here, is a constructor of \<open>error\<close>.
  \<open>PlatformFailure\<close> is a rejection that comes from outside the module (microphone
  permission, audio device, network); it carries the optional \<^verbatim>\<open>message\<close> property.
\<close>

datatype error =
    ReferenceError
  | TypeError
  | RangeError
  | NotSupportedError
  | InvalidCharacterError
  | PlatformFailure "string option"

text \<open>The \<^verbatim>\<open>message\<close> property of a caught value.\<close>

fun message :: "error \<Rightarrow> string option" where
  "message ReferenceError = Some ''fullInputTranscript is not defined''"
| "message TypeError = Some ''Cannot read properties of undefined''"
| "message RangeError = Some ''byte length of Int16Array should be a multiple of 2''"
| "message NotSupportedError = Some ''The number of frames provided is not supported''"
| "message InvalidCharacterError = Some ''The string to be decoded is not correctly encoded''"
| "message (PlatformFailure m) = m"

text \<open>
  \<^verbatim>\<open>x || d\<close> on an optional string: \<^verbatim>\<open>undefined\<close> and the empty string are both falsy.
\<close>

definition or_else :: "string option \<Rightarrow> string \<Rightarrow> string" where
  "or_else x d = (case x of None \<Rightarrow> d | Some t \<Rightarrow> if t = [] then d else t)"

text \<open>
  \<^verbatim>\<open>s += x\<close> on a string accumulator with an optional string: \<^verbatim>\<open>undefined\<close> is
  converted to the text \<^verbatim>\<open>undefined\<close>.
\<close>

definition to_text :: "string option \<Rightarrow> string" where
  "to_text x = (case x of None \<Rightarrow> ''undefined'' | Some t \<Rightarrow> t)"

type_synonym byte = "8 word"
type_synonym int16 = "16 word"

section \<open>Transport encoding of the platform\<close>

text \<open>
  \<^verbatim>\<open>btoa\<close> and \<^verbatim>\<open>atob\<close> are functions of the browser, not of this repository; they
  are written out after the HTML standard (base64 encoding and forgiving-base64
  decoding). A binary string, whose code units are all below 256, is a list of bytes,
  so that \<^verbatim>\<open>String.fromCharCode(...bytes)\<close> and the \<^verbatim>\<open>charCodeAt\<close> loop of
  \<^verbatim>\<open>decode\<close> are the identity on this representation.
\<close>

definition alphabet :: string where
  "alphabet = ''ABCDEFGHIJKLMNOPQRSTUVWXYZabcdefghijklmnopqrstuvwxyz0123456789+/''"

definition sextet_char :: "nat \<Rightarrow> char" where
  "sextet_char n = alphabet ! n"

fun index_of :: "'a \<Rightarrow> 'a list \<Rightarrow> nat option" where
  "index_of c [] = None"
| "index_of c (x # xs) =
     (if c = x then Some 0 else map_option Suc (index_of c xs))"

definition char_sextet :: "char \<Rightarrow> nat option" where
  "char_sextet c = index_of c alphabet"

fun btoa :: "byte list \<Rightarrow> string" where
  "btoa [] = []"
| "btoa [a] =
     [sextet_char (unat a div 4), sextet_char (unat a mod 4 * 16), CHR ''='', CHR ''='']"
| "btoa [a, b] =
     [sextet_char (unat a div 4), sextet_char (unat a mod 4 * 16 + unat b div 16),
      sextet_char (unat b mod 16 * 4), CHR ''='']"
| "btoa (a # b # c # rest) =
     [sextet_char (unat a div 4), sextet_char (unat a mod 4 * 16 + unat b div 16),
      sextet_char (unat b mod 16 * 4 + unat c div 64), sextet_char (unat c mod 64)]
     @ btoa rest"

text \<open>
  The encoding taken apart, for the proofs: the sextets a byte list is cut into, and the
  padding that completes its last group.
\<close>

fun byte_sextets :: "byte list \<Rightarrow> nat list" where
  "byte_sextets [] = []"
| "byte_sextets [a] = [unat a div 4, unat a mod 4 * 16]"
| "byte_sextets [a, b] =
     [unat a div 4, unat a mod 4 * 16 + unat b div 16, unat b mod 16 * 4]"
| "byte_sextets (a # b # c # rest) =
     [unat a div 4, unat a mod 4 * 16 + unat b div 16,
      unat b mod 16 * 4 + unat c div 64, unat c mod 64]
     @ byte_sextets rest"

fun padding :: "byte list \<Rightarrow> string" where
  "padding [] = []"
| "padding [a] = ''==''"
| "padding [a, b] = ''=''"
| "padding (a # b # c # rest) = padding rest"

definition ascii_whitespace :: "char \<Rightarrow> bool" where
  "ascii_whitespace c = (c \<in> set [CHR 0x09, CHR 0x0A, CHR 0x0C, CHR 0x0D, CHR 0x20])"

text \<open>Step 2 of forgiving-base64: with a length divisible by 4, one or two final \<^verbatim>\<open>=\<close> go.\<close>

definition strip_padding :: "string \<Rightarrow> string" where
  "strip_padding cs =
     (if length cs mod 4 = 0 then
        (case rev cs of
           x # y # r \<Rightarrow>
             if x = CHR ''='' then (if y = CHR ''='' then rev r else rev (y # r)) else cs
         | _ \<Rightarrow> cs)
      else cs)"

fun sextets :: "string \<Rightarrow> nat list option" where
  "sextets [] = Some []"
| "sextets (c # cs) =
     (case char_sextet c of
        None \<Rightarrow> None
      | Some n \<Rightarrow> map_option ((#) n) (sextets cs))"

fun sextet_bytes :: "nat list \<Rightarrow> byte list" where
  "sextet_bytes (p # q # r # s # rest) =
     [of_nat (p * 4 + q div 16), of_nat (q mod 16 * 16 + r div 4), of_nat (r mod 4 * 64 + s)]
     @ sextet_bytes rest"
| "sextet_bytes [p, q, r] = [of_nat (p * 4 + q div 16), of_nat (q mod 16 * 16 + r div 4)]"
| "sextet_bytes [p, q] = [of_nat (p * 4 + q div 16)]"
| "sextet_bytes _ = []"

definition atob :: "string \<Rightarrow> error + byte list" where
  "atob base64 =
     (let cs = strip_padding (filter (\<lambda>c. \<not> ascii_whitespace c) base64) in
      if length cs mod 4 = 1 then Inl InvalidCharacterError
      else case sextets cs of
             None \<Rightarrow> Inl InvalidCharacterError
           | Some ns \<Rightarrow> Inr (sextet_bytes ns))"

section \<open>Audio utility functions\<close>

text \<open>
  Samples are real numbers. A \<^verbatim>\<open>Float32Array\<close> element is a dyadic rational; the
  products by 32768 and the quotients of a 16-bit integer by 32768 that the source
  computes on them are exact in binary floating point, so the real-number model computes
  the values the source computes (not-a-number and infinite samples are outside the model).
\<close>

subsection \<open>\<^verbatim>\<open>decode\<close>\<close>

definition decode :: "string \<Rightarrow> error + byte list" where
  "decode base64 =
     (case atob base64 of
        Inl e \<Rightarrow> Inl e
      | Inr binaryString \<Rightarrow> Inr (map (\<lambda>c. c) binaryString))"

subsection \<open>Typed arrays over a byte buffer\<close>

text \<open>
  Storing a number into an \<^verbatim>\<open>Int16Array\<close> truncates it towards zero and keeps the
  low 16 bits (the ToInt16 conversion of the language).
\<close>

definition js_trunc :: "real \<Rightarrow> int" where
  "js_trunc x = (if 0 \<le> x then \<lfloor>x\<rfloor> else - \<lfloor>- x\<rfloor>)"

definition ToInt16 :: "real \<Rightarrow> int16" where
  "ToInt16 x = word_of_int (js_trunc x)"

text \<open>\<^verbatim>\<open>new Uint8Array(int16.buffer)\<close>: the bytes of the elements, low byte first.\<close>

definition int16_bytes :: "int16 \<Rightarrow> byte list" where
  "int16_bytes w = [ucast w, ucast (drop_bit 8 w)]"

definition Uint8Array_of_buffer :: "int16 list \<Rightarrow> byte list" where
  "Uint8Array_of_buffer ws = concat (map int16_bytes ws)"

fun int16_elements :: "byte list \<Rightarrow> int16 list" where
  "int16_elements (lo # hi # rest) = (push_bit 8 (ucast hi) OR ucast lo) # int16_elements rest"
| "int16_elements _ = []"

text \<open>
  \<^verbatim>\<open>new Int16Array(data.buffer)\<close>: the constructor throws a RangeError when the
  byte length of the buffer is not a multiple of the element size.
\<close>

definition Int16Array_of_buffer :: "byte list \<Rightarrow> error + int16 list" where
  "Int16Array_of_buffer bytes =
     (if length bytes mod 2 \<noteq> 0 then Inl RangeError else Inr (int16_elements bytes))"

subsection \<open>\<^verbatim>\<open>decodeAudioData\<close>\<close>

record AudioBuffer =
  numberOfChannels :: nat
  frames :: nat
  sampleRate :: nat
  channelData :: "real list list"

definition duration :: "AudioBuffer \<Rightarrow> real" where
  "duration b = real (frames b) / real (sampleRate b)"

text \<open>
  \<^verbatim>\<open>ctx.createBuffer(numChannels, frameCount, sampleRate)\<close> throws a NotSupportedError
  when an argument is zero; a fractional \<^verbatim>\<open>frameCount\<close> is truncated to an integer by
  the argument conversion, which is the \<open>div\<close> below. The loop of the source runs
  \<^verbatim>\<open>i\<close> up to the fractional \<^verbatim>\<open>frameCount\<close>; its stores past the end of the channel
  array are ignored by the typed array, so the channel holds the first \<open>frames\<close> values.
\<close>

definition decodeAudioData :: "byte list \<Rightarrow> nat \<Rightarrow> nat \<Rightarrow> error + AudioBuffer" where
  "decodeAudioData bytes rate numChannels =
     (case Int16Array_of_buffer bytes of
        Inl e \<Rightarrow> Inl e
      | Inr dataInt16 \<Rightarrow>
          if numChannels = 0 \<or> rate = 0 then Inl NotSupportedError
          else
            let frameCount = length dataInt16 div numChannels in
            if frameCount = 0 then Inl NotSupportedError
            else Inr \<lparr>numberOfChannels = numChannels, frames = frameCount, sampleRate = rate,
                      channelData =
                        map (\<lambda>channel.
                               map (\<lambda>i. real_of_int (sint (dataInt16 ! (i * numChannels + channel)))
                                          / 32768)
                                   [0..<frameCount])
                            [0..<numChannels]\<rparr>)"

subsection \<open>\<^verbatim>\<open>createBlob\<close>\<close>

record Blob =
  data :: "string option"
  mimeType :: "string option"

definition createBlob :: "real list \<Rightarrow> Blob" where
  "createBlob samples =
     (let int16 = map (\<lambda>x. ToInt16 (x * 32768)) samples in
      \<lparr>data = Some (btoa (Uint8Array_of_buffer int16)),
       mimeType = Some ''audio/pcm;rate=16000''\<rparr>)"

section \<open>The live speaking session\<close>

subsection \<open>Messages of the remote endpoint\<close>

text \<open>
  The fields of a server message that \<^verbatim>\<open>onmessage\<close> reads, optional as in the
  declarations of the client library. The two flags are read for their truth value
  only, so an absent flag is \<open>False\<close>.
\<close>

record Transcription =
  transcription_text :: "string option"

record Part =
  inlineData :: "Blob option"

record Content =
  parts :: "Part list option"

record LiveServerContent =
  inputTranscription :: "Transcription option"
  modelTurn :: "Content option"
  outputTranscription :: "Transcription option"
  turnComplete :: bool
  interrupted :: bool

record LiveServerMessage =
  serverContent :: "LiveServerContent option"

subsection \<open>What the session does to the outside\<close>

text \<open>
  A call of one of the caller's callbacks, or of a platform object the session holds,
  is appended to a trace in the order the source makes it. A scheduled source is
  identified by a number, and a microphone track by a number.
\<close>

datatype action =
    onTranscriptionUpdate string string
  | onTurnComplete string
  | onAIStartSpeaking
  | onAIStopSpeaking
  | onError string
  | onClose
  | sendRealtimeInput Blob
  | source_start nat real
  | source_stop nat
  | session_close
  | track_stop nat
  | inputAudioContext_close
  | outputAudioContext_close
  | scriptProcessor_disconnect
  | mediaStreamSource_disconnect

subsection \<open>The variables of \<^verbatim>\<open>startLiveSpeakingSession\<close>\<close>

record AudioBufferSourceNode =
  node_id :: nat
  buffer :: AudioBuffer

record ScriptProcessorNode =
  onaudioprocess :: bool

text \<open>
  The local variables that the callbacks and \<^verbatim>\<open>close\<close> share. A handle that is
  \<^verbatim>\<open>null\<close> or not yet assigned is \<open>None\<close>; an audio context is represented by its
  sample rate and a stream by its tracks. \<open>sources\<close> is the in-flight set in
  insertion order, the order in which the language iterates a set. \<open>trace\<close> and
  \<open>fresh\<close> (the identity of the next source created) belong to the model. The
  variable \<^verbatim>\<open>inputNode\<close> is never assigned or read and is left out.
\<close>

record session =
  nextStartTime :: real
  inputAudioContext :: "nat option"
  outputAudioContext :: "nat option"
  scriptProcessor :: "ScriptProcessorNode option"
  mediaStreamSource :: "unit option"
  sources :: "AudioBufferSourceNode list"
  stream :: "nat list option"
  currentInputTranscription :: string
  currentOutputTranscription :: string
  trace :: "action list"
  fresh :: nat

definition call :: "action \<Rightarrow> session \<Rightarrow> session" where
  "call a s = s\<lparr>trace := trace s @ [a]\<rparr>"

text \<open>
  A part of a handler either completes or throws; the state reached when it throws is
  kept, since the assignments made before the throw are not undone.
\<close>

type_synonym step = "session \<Rightarrow> error option \<times> session"

definition and_then :: "step \<Rightarrow> step \<Rightarrow> step" where
  "and_then f g s = (case f s of (None, s') \<Rightarrow> g s' | (Some e, s') \<Rightarrow> (Some e, s'))"

definition completes :: "(session \<Rightarrow> session) \<Rightarrow> step" where
  "completes f s = (None, f s)"

subsection \<open>\<^verbatim>\<open>onopen\<close> and the capture callback\<close>

definition onopen :: "session \<Rightarrow> session" where
  "onopen s =
     s\<lparr>mediaStreamSource := Some (), scriptProcessor := Some \<lparr>onaudioprocess = True\<rparr>\<rparr>"

definition audioprocess :: "real list \<Rightarrow> session \<Rightarrow> session" where
  "audioprocess inputData s = call (sendRealtimeInput (createBlob inputData)) s"

subsection \<open>\<^verbatim>\<open>onmessage\<close>\<close>

text \<open>Lines 250 to 253: an input transcript fragment.\<close>

definition handle_inputTranscription :: "LiveServerMessage \<Rightarrow> session \<Rightarrow> session" where
  "handle_inputTranscription m s =
     (case serverContent m of
        None \<Rightarrow> s
      | Some sc \<Rightarrow>
          (case inputTranscription sc of
             None \<Rightarrow> s
           | Some t \<Rightarrow>
               let s1 = s\<lparr>currentInputTranscription :=
                             currentInputTranscription s @ to_text (transcription_text t)\<rparr>
               in call (onTranscriptionUpdate (currentInputTranscription s1)
                                              (currentOutputTranscription s1)) s1))"

text \<open>
  Line 256: \<^verbatim>\<open>message.serverContent?.modelTurn?.parts[0]?.inlineData?.data\<close>. The
  chain is optional at every link but \<^verbatim>\<open>parts\<close>: indexing an absent \<^verbatim>\<open>parts\<close>
  throws a TypeError.
\<close>

definition base64EncodedAudioString :: "LiveServerMessage \<Rightarrow> error + string option" where
  "base64EncodedAudioString m =
     (case serverContent m of
        None \<Rightarrow> Inr None
      | Some sc \<Rightarrow>
          (case modelTurn sc of
             None \<Rightarrow> Inr None
           | Some turn \<Rightarrow>
               (case parts turn of
                  None \<Rightarrow> Inl TypeError
                | Some [] \<Rightarrow> Inr None
                | Some (p # _) \<Rightarrow>
                    (case inlineData p of
                       None \<Rightarrow> Inr None
                     | Some b \<Rightarrow> Inr (data b)))))"

text \<open>
  Lines 257 to 279: an output audio fragment. \<open>currentTime\<close> is the value of
  \<^verbatim>\<open>outputAudioContext.currentTime\<close> when the handler reads it. The empty string is
  falsy, so it is no fragment.
\<close>

definition handle_audio :: "real \<Rightarrow> LiveServerMessage \<Rightarrow> step" where
  "handle_audio currentTime m s =
     (case base64EncodedAudioString m of
        Inl e \<Rightarrow> (Some e, s)
      | Inr None \<Rightarrow> (None, s)
      | Inr (Some b64) \<Rightarrow>
          if b64 = [] then (None, s)
          else
            let s1 = call onAIStartSpeaking s in
            (case outputAudioContext s1 of
               None \<Rightarrow> (Some TypeError, s1)
             | Some rate \<Rightarrow>
                 let s2 = s1\<lparr>nextStartTime := max (nextStartTime s1) currentTime\<rparr> in
                 (case decode b64 of
                    Inl e \<Rightarrow> (Some e, s2)
                  | Inr bytes \<Rightarrow>
                      (case decodeAudioData bytes 24000 1 of
                         Inl e \<Rightarrow> (Some e, s2)
                       | Inr audioBuffer \<Rightarrow>
                           let source = \<lparr>node_id = fresh s2, buffer = audioBuffer\<rparr>;
                               s3 = call (source_start (node_id source) (nextStartTime s2)) s2;
                               s4 = s3\<lparr>nextStartTime := nextStartTime s3 + duration audioBuffer\<rparr>
                           in (None, s4\<lparr>sources := sources s4 @ [source],
                                         fresh := Suc (fresh s4)\<rparr>)))))"

text \<open>Lines 269 to 274: the listener of a source's \<^verbatim>\<open>ended\<close> event.\<close>

definition ended :: "nat \<Rightarrow> session \<Rightarrow> session" where
  "ended i s =
     (let s1 = s\<lparr>sources := filter (\<lambda>x. node_id x \<noteq> i) (sources s)\<rparr>
      in if length (sources s1) = 0 then call onAIStopSpeaking s1 else s1)"

text \<open>Lines 280 to 283: an output transcript fragment.\<close>

definition handle_outputTranscription :: "LiveServerMessage \<Rightarrow> session \<Rightarrow> session" where
  "handle_outputTranscription m s =
     (case serverContent m of
        None \<Rightarrow> s
      | Some sc \<Rightarrow>
          (case outputTranscription sc of
             None \<Rightarrow> s
           | Some t \<Rightarrow>
               let s1 = s\<lparr>currentOutputTranscription :=
                             currentOutputTranscription s @ to_text (transcription_text t)\<rparr>
               in call (onTranscriptionUpdate (currentInputTranscription s1)
                                              (currentOutputTranscription s1)) s1))"

text \<open>
  Lines 286 to 308: the turn-complete branch. Its first statement evaluates
  \<^verbatim>\<open>fullInputTranscript\<close>, a name that no scope of the module declares (as are
  \<^verbatim>\<open>conversationHistoryRef\<close>, \<^verbatim>\<open>outputTranscriptRef\<close> and the others the branch
  goes on to use), so the branch throws a ReferenceError before it has any effect. It
  neither calls \<^verbatim>\<open>callbacks.onTurnComplete\<close> nor assigns the two accumulators.
\<close>

definition handle_turnComplete :: "LiveServerMessage \<Rightarrow> step" where
  "handle_turnComplete m s =
     (case serverContent m of
        None \<Rightarrow> (None, s)
      | Some sc \<Rightarrow> if turnComplete sc then (Some ReferenceError, s) else (None, s))"

text \<open>
  The loop of lines 313 to 316, also the last loop of \<^verbatim>\<open>close\<close>: every source of
  the set is stopped and deleted. Deleting the element just visited does not disturb
  the iteration, so the loop visits the members the set had when it began.
\<close>

fun stop_sources :: "AudioBufferSourceNode list \<Rightarrow> session \<Rightarrow> session" where
  "stop_sources [] s = s"
| "stop_sources (source # rest) s =
     stop_sources rest
       ((call (source_stop (node_id source)) s)
          \<lparr>sources := filter (\<lambda>x. node_id x \<noteq> node_id source) (sources s)\<rparr>)"

text \<open>Lines 311 to 319: an interruption.\<close>

definition handle_interrupted :: "LiveServerMessage \<Rightarrow> session \<Rightarrow> session" where
  "handle_interrupted m s =
     (case serverContent m of
        None \<Rightarrow> s
      | Some sc \<Rightarrow>
          if interrupted sc then
            let s1 = stop_sources (sources s) s;
                s2 = s1\<lparr>nextStartTime := 0\<rparr>
            in call onAIStopSpeaking s2
          else s)"

definition onmessage :: "real \<Rightarrow> LiveServerMessage \<Rightarrow> step" where
  "onmessage currentTime m =
     and_then (completes (handle_inputTranscription m))
    (and_then (handle_audio currentTime m)
    (and_then (completes (handle_outputTranscription m))
    (and_then (handle_turnComplete m)
              (completes (handle_interrupted m)))))"

subsection \<open>\<^verbatim>\<open>onerror\<close> and \<^verbatim>\<open>onclose\<close>\<close>

definition onerror :: "string option \<Rightarrow> session \<Rightarrow> session" where
  "onerror e_message s =
     call onClose
       (call (onError (''Live session error: '' @ or_else e_message ''Unknown error'')) s)"

definition onclose :: "session \<Rightarrow> session" where
  "onclose s = call onClose s"

subsection \<open>The handle's \<^verbatim>\<open>close\<close>\<close>

fun stop_tracks :: "nat list \<Rightarrow> session \<Rightarrow> session" where
  "stop_tracks [] s = s"
| "stop_tracks (track # rest) s = stop_tracks rest (call (track_stop track) s)"

definition close :: "session \<Rightarrow> session" where
  "close s =
     (let s1 = call session_close s;
          s2 = (case stream s1 of None \<Rightarrow> s1 | Some tracks \<Rightarrow> stop_tracks tracks s1);
          s3 = (case inputAudioContext s2 of
                  None \<Rightarrow> s2 | Some _ \<Rightarrow> call inputAudioContext_close s2);
          s4 = (case outputAudioContext s3 of
                  None \<Rightarrow> s3 | Some _ \<Rightarrow> call outputAudioContext_close s3);
          s5 = (case scriptProcessor s4 of
                  None \<Rightarrow> s4
                | Some p \<Rightarrow> (call scriptProcessor_disconnect s4)
                              \<lparr>scriptProcessor := Some (p\<lparr>onaudioprocess := False\<rparr>)\<rparr>);
          s6 = (case mediaStreamSource s5 of
                  None \<Rightarrow> s5 | Some _ \<Rightarrow> call mediaStreamSource_disconnect s5)
      in stop_sources (sources s6) s6)"

subsection \<open>\<^verbatim>\<open>startLiveSpeakingSession\<close>\<close>

text \<open>
  What the platform answers to the four requests of the set-up, in the order the
  source makes them: the microphone stream (its tracks), the two audio contexts, and
  the connection to the remote endpoint.
\<close>

record platform =
  getUserMedia :: "error + nat list"
  newInputAudioContext :: "error option"
  newOutputAudioContext :: "error option"
  connect :: "error option"

definition initial :: session where
  "initial =
     \<lparr>nextStartTime = 0, inputAudioContext = None, outputAudioContext = None,
      scriptProcessor = None, mediaStreamSource = None, sources = [], stream = None,
      currentInputTranscription = [], currentOutputTranscription = [],
      trace = [], fresh = 0\<rparr>"

text \<open>Lines 370 to 375: the \<^verbatim>\<open>catch\<close> block, which ends by throwing the error again.\<close>

definition catch :: "error \<Rightarrow> step" where
  "catch e s =
     (Some e,
      call onClose
        (call (onError (''Failed to start speaking session: ''
                        @ or_else (message e) ''Microphone access denied or unknown error.'')) s))"

text \<open>
  The result is the error thrown to the caller, or \<open>None\<close> when the handle is
  returned; the handle's only operation is \<open>close\<close> on the state of the session.
\<close>

definition startLiveSpeakingSession :: "platform \<Rightarrow> error option \<times> session" where
  "startLiveSpeakingSession pf =
     (case getUserMedia pf of
        Inl e \<Rightarrow> catch e initial
      | Inr tracks \<Rightarrow>
          let s1 = initial\<lparr>stream := Some tracks\<rparr> in
          (case newInputAudioContext pf of
             Some e \<Rightarrow> catch e s1
           | None \<Rightarrow>
               let s2 = s1\<lparr>inputAudioContext := Some 16000\<rparr> in
               (case newOutputAudioContext pf of
                  Some e \<Rightarrow> catch e s2
                | None \<Rightarrow>
                    let s3 = s2\<lparr>outputAudioContext := Some 24000\<rparr> in
                    (case connect pf of
                       Some e \<Rightarrow> catch e s3
                     | None \<Rightarrow> (None, s3)))))"

subsection \<open>A run of messages\<close>

text \<open>
  The messages of a session are handled one after the other, each with the reading of
  the output clock at its arrival; a handler that throws does not stop the later ones.
  A handler is taken to run to its end before the next message is handled, which is the
  ordering the specification states for the handlers of remote events; the one suspension
  of \<^verbatim>\<open>onmessage\<close> awaits \<^verbatim>\<open>decodeAudioData\<close>, whose result is ready when it
  returns.
\<close>

fun run :: "(real \<times> LiveServerMessage) list \<Rightarrow> session \<Rightarrow> session" where
  "run [] s = s"
| "run ((currentTime, m) # rest) s = run rest (snd (onmessage currentTime m s))"

section \<open>Notions the properties are stated with\<close>

text \<open>
  Encoding a chunk and decoding the blob again, mono, at the capture rate. The blob's
  \<^verbatim>\<open>data\<close> is handed to \<^verbatim>\<open>decode\<close> as the remote side's audio is.
\<close>

definition decode_createBlob :: "real list \<Rightarrow> error + AudioBuffer" where
  "decode_createBlob samples =
     (case decode (to_text (data (createBlob samples))) of
        Inl e \<Rightarrow> Inl e
      | Inr bytes \<Rightarrow> decodeAudioData bytes 16000 1)"

text \<open>The value of a 16-bit signed little-endian sample, from its two bytes.\<close>

definition sample_value :: "byte \<Rightarrow> byte \<Rightarrow> int" where
  "sample_value lo hi =
     (let n = int (unat lo) + 256 * int (unat hi) in if n < 32768 then n else n - 65536)"

text \<open>The start times handed to \<^verbatim>\<open>source.start\<close>, in the order of the calls.\<close>

definition start_times :: "action list \<Rightarrow> real list" where
  "start_times acts =
     concat (map (\<lambda>a. case a of source_start i t \<Rightarrow> [t] | _ \<Rightarrow> []) acts)"

text \<open>The playback buffer that a message's audio fragment decodes to, if it has one.\<close>

definition fragment :: "LiveServerMessage \<Rightarrow> AudioBuffer option" where
  "fragment m =
     (case base64EncodedAudioString m of
        Inr (Some b64) \<Rightarrow>
          if b64 = [] then None
          else (case decode b64 of
                  Inl e \<Rightarrow> None
                | Inr bytes \<Rightarrow>
                    (case decodeAudioData bytes 24000 1 of
                       Inl e \<Rightarrow> None
                     | Inr audioBuffer \<Rightarrow> Some audioBuffer))
      | _ \<Rightarrow> None)"

definition fragment_duration :: "LiveServerMessage \<Rightarrow> real" where
  "fragment_duration m = (case fragment m of None \<Rightarrow> 0 | Some b \<Rightarrow> duration b)"

definition interruption :: "LiveServerMessage \<Rightarrow> bool" where
  "interruption m = (case serverContent m of None \<Rightarrow> False | Some sc \<Rightarrow> interrupted sc)"

text \<open>
  The scheduling rule in the words of the specification: from a cursor, each buffer,
  given with the clock reading at its arrival and its duration, starts at the larger
  of cursor and clock, and the cursor moves to that start plus the duration.
\<close>

fun schedule :: "real \<Rightarrow> (real \<times> real) list \<Rightarrow> real list" where
  "schedule cursor [] = []"
| "schedule cursor ((clock, d) # rest) =
     max cursor clock # schedule (max cursor clock + d) rest"

text \<open>
  The release calls of \<^verbatim>\<open>close\<close> on the handles the session retains, in the order
  of the source; the in-flight sources are apart.
\<close>

definition handle_calls :: "session \<Rightarrow> action list" where
  "handle_calls s =
     [session_close]
     @ (case stream s of None \<Rightarrow> [] | Some tracks \<Rightarrow> map track_stop tracks)
     @ (case inputAudioContext s of None \<Rightarrow> [] | Some _ \<Rightarrow> [inputAudioContext_close])
     @ (case outputAudioContext s of None \<Rightarrow> [] | Some _ \<Rightarrow> [outputAudioContext_close])
     @ (case scriptProcessor s of None \<Rightarrow> [] | Some _ \<Rightarrow> [scriptProcessor_disconnect])
     @ (case mediaStreamSource s of None \<Rightarrow> [] | Some _ \<Rightarrow> [mediaStreamSource_disconnect])"

subsection \<open>Concrete sessions and messages\<close>

definition granted :: platform where
  "granted = \<lparr>getUserMedia = Inr [0], newInputAudioContext = None,
              newOutputAudioContext = None, connect = None\<rparr>"

text \<open>A session whose set-up succeeded and whose connection has opened.\<close>

definition opened :: session where
  "opened = onopen (snd (startLiveSpeakingSession granted))"

definition no_content :: LiveServerContent where
  "no_content = \<lparr>inputTranscription = None, modelTurn = None, outputTranscription = None,
                 turnComplete = False, interrupted = False\<rparr>"

definition input_fragment :: "string \<Rightarrow> LiveServerMessage" where
  "input_fragment t =
     \<lparr>serverContent =
        Some (no_content\<lparr>inputTranscription := Some \<lparr>transcription_text = Some t\<rparr>\<rparr>)\<rparr>"

definition output_fragment :: "string \<Rightarrow> LiveServerMessage" where
  "output_fragment t =
     \<lparr>serverContent =
        Some (no_content\<lparr>outputTranscription := Some \<lparr>transcription_text = Some t\<rparr>\<rparr>)\<rparr>"

definition audio_fragment :: "string \<Rightarrow> LiveServerMessage" where
  "audio_fragment b64 =
     \<lparr>serverContent =
        Some (no_content\<lparr>modelTurn :=
          Some \<lparr>parts = Some [\<lparr>inlineData = Some \<lparr>data = Some b64, mimeType = None\<rparr>\<rparr>]\<rparr>\<rparr>)\<rparr>"

definition turn_complete_signal :: LiveServerMessage where
  "turn_complete_signal = \<lparr>serverContent = Some (no_content\<lparr>turnComplete := True\<rparr>)\<rparr>"

definition interruption_signal :: LiveServerMessage where
  "interruption_signal = \<lparr>serverContent = Some (no_content\<lparr>interrupted := True\<rparr>)\<rparr>"

section \<open>Evaluation\<close>

lemmas fixture_defs = granted_def opened_def no_content_def input_fragment_def
  output_fragment_def audio_fragment_def turn_complete_signal_def interruption_signal_def

lemmas handler_defs = onmessage_def and_then_def completes_def call_def
  handle_inputTranscription_def handle_audio_def handle_outputTranscription_def
  handle_turnComplete_def handle_interrupted_def base64EncodedAudioString_def to_text_def
  or_else_def onopen_def startLiveSpeakingSession_def initial_def catch_def onerror_def
  onclose_def close_def ended_def

lemmas codec_defs = decode_def atob_def strip_padding_def ascii_whitespace_def
  char_sextet_def alphabet_def sextet_char_def decodeAudioData_def Int16Array_of_buffer_def
  duration_def createBlob_def ToInt16_def js_trunc_def Uint8Array_of_buffer_def
  int16_bytes_def

section \<open>The sample layout\<close>

lemma int16_elements_length: "length (int16_elements bytes) = length bytes div 2"
  by (induction bytes rule: int16_elements.induct) simp_all

lemma int16_elements_nth:
  "j < length bytes div 2 \<Longrightarrow>
   int16_elements bytes ! j
     = push_bit 8 (ucast (bytes ! (2 * j + 1))) OR ucast (bytes ! (2 * j))"
proof (induction bytes arbitrary: j rule: int16_elements.induct)
  case (1 lo hi rest)
  then show ?case by (cases j) simp_all
qed simp_all

lemma byte_bound: "uint (b :: byte) < 256"
  using uint_bounded [of b] by simp

lemma le_word_uint:
  "uint (push_bit 8 (ucast hi) OR ucast lo :: int16) = uint (lo :: byte) + 256 * uint (hi :: byte)"
proof -
  have "(push_bit 8 (ucast hi) OR ucast lo :: int16) = push_bit 8 (ucast hi) + ucast lo"
    using word_cat_eq [of hi lo, where ?'c = 16] word_cat_eq_push_bit_or [of hi lo, where ?'c = 16]
    by simp
  moreover have "uint (ucast lo :: int16) = uint lo"
    by (simp add: uint_up_ucast is_up)
  moreover have "uint (push_bit 8 (ucast hi :: int16)) = 256 * uint hi"
    using byte_bound [of hi]
    by (simp add: push_bit_eq_mult uint_word_ariths uint_up_ucast is_up)
  ultimately show ?thesis
    using byte_bound [of hi] byte_bound [of lo]
    by (simp add: uint_word_ariths)
qed

lemma le_word_sint:
  "sint (push_bit 8 (ucast hi) OR ucast lo :: int16) = sample_value lo hi"
proof -
  let ?n = "uint lo + 256 * uint hi"
  have range: "0 \<le> ?n" "?n < 65536"
    using byte_bound [of hi] byte_bound [of lo] by simp_all
  have "sint (push_bit 8 (ucast hi) OR ucast lo :: int16) = signed_take_bit 15 ?n"
    by (simp add: sint_uint le_word_uint)
  also have "\<dots> = (if ?n < 32768 then ?n else ?n - 65536)"
  proof -
    have "signed_take_bit 15 ?n = (?n + 32768) mod 65536 - 32768"
      by (simp add: signed_take_bit_eq_take_bit_shift take_bit_eq_mod)
    moreover have "(?n + 32768) mod 65536 = ?n + 32768" if "?n < 32768"
      using that range by simp
    moreover have "(?n + 32768) mod 65536 = ?n - 32768" if "\<not> ?n < 32768"
    proof -
      have eq: "?n + 32768 = ?n - 32768 + 1 * 65536" by simp
      have "(?n + 32768) mod 65536 = (?n - 32768 + 1 * 65536) mod 65536"
        by (simp only: eq)
      also have "\<dots> = (?n - 32768) mod 65536" by (rule mod_mult_self1)
      also have "\<dots> = ?n - 32768" using that range by simp
      finally show ?thesis .
    qed
    ultimately show ?thesis by simp
  qed
  finally show ?thesis
    by (simp add: sample_value_def Let_def)
qed


lemma le_word_signed:
  "(signed (push_bit 8 (ucast hi) OR ucast lo :: int16) :: real)
     = real_of_int (sample_value lo hi)"
proof -
  have "(signed (push_bit 8 (ucast hi) OR ucast lo :: int16) :: real)
          = real_of_int (sint (push_bit 8 (ucast hi) OR ucast lo :: int16))"
    by simp
  then show ?thesis by (simp only: le_word_sint)
qed


lemma index_bound:
  assumes "c < n" and "i < f"
  shows "i * n + c < f * (n :: nat)"
proof -
  from assms have "i * n + c < Suc i * n" by simp
  also from assms have "\<dots> \<le> f * n" by (intro mult_le_mono1) simp
  finally show ?thesis .
qed

lemma decodeAudioData_even:
  assumes "even (length bytes)" and "0 < rate" and "0 < n" and "n \<le> length bytes div 2"
  shows "decodeAudioData bytes rate n =
     Inr \<lparr>numberOfChannels = n, frames = length bytes div 2 div n, sampleRate = rate,
          channelData =
            map (\<lambda>channel.
                   map (\<lambda>i. real_of_int (sint (int16_elements bytes ! (i * n + channel)))
                              / 32768) [0..<length bytes div 2 div n])
                [0..<n]\<rparr>"
proof -
  from assms have pos: "0 < length bytes div 2 div n" by (simp add: div_greater_zero_iff)
  from assms(1) have "Int16Array_of_buffer bytes = Inr (int16_elements bytes)"
    by (simp add: Int16Array_of_buffer_def even_iff_mod_2_eq_zero)
  with assms pos show ?thesis
    by (simp add: decodeAudioData_def int16_elements_length Let_def)
qed

lemma upt_0_2: "[0..<2] = [0, Suc 0]"
  by code_simp

section \<open>Decoding inverts encoding\<close>

lemma unat_byte: "unat (a :: 8 word) < 256"
  using unsigned_less [of a, where ?'a = nat] by simp

lemma sextet_arith:
  fixes a b c :: nat
  assumes "b < 256" and "c < 256"
  shows "a div 4 * 4 + (a mod 4 * 16 + b div 16) div 16 = a
       \<and> (a mod 4 * 16 + b div 16) mod 16 * 16 + (b mod 16 * 4 + c div 64) div 4 = b
       \<and> (b mod 16 * 4 + c div 64) mod 4 * 64 + c mod 64 = c
       \<and> a div 4 * 4 + a mod 4 * 16 div 16 = a
       \<and> (a mod 4 * 16 + b div 16) mod 16 * 16 + b mod 16 * 4 div 4 = b"
proof -
  from assms have b16: "b div 16 < 16" and c64: "c div 64 < 4"
    by (simp_all add: less_mult_imp_div_less)
  have 1: "(a mod 4 * 16 + b div 16) div 16 = a mod 4" using b16 by simp
  have 5: "b div 16 mod 16 = b div 16" using b16 by simp
  have 6: "c div 64 mod 4 = c div 64" using c64 by simp
  have "a div 4 * 4 + (a mod 4 * 16 + b div 16) div 16 = a" by (simp add: 1)
  moreover have "(a mod 4 * 16 + b div 16) mod 16 * 16 + (b mod 16 * 4 + c div 64) div 4 = b"
    using b16 c64 by (simp add: 5)
  moreover have "(b mod 16 * 4 + c div 64) mod 4 * 64 + c mod 64 = c" by (simp add: 6)
  moreover have "a div 4 * 4 + a mod 4 * 16 div 16 = a" by simp
  moreover have "(a mod 4 * 16 + b div 16) mod 16 * 16 + b mod 16 * 4 div 4 = b"
    by (simp add: 5)
  ultimately show ?thesis by blast
qed

lemma sextet_bound:
  fixes a b c :: nat
  assumes "a < 256" and "b < 256" and "c < 256"
  shows "a div 4 < 64 \<and> a mod 4 * 16 + b div 16 < 64 \<and> b mod 16 * 4 + c div 64 < 64
       \<and> c mod 64 < 64 \<and> a mod 4 * 16 < 64 \<and> b mod 16 * 4 < 64"
proof -
  from assms have b16: "b div 16 < 16" and c64: "c div 64 < 4" and a4: "a div 4 < 64"
    by (simp_all add: less_mult_imp_div_less)
  have m4: "a mod 4 < 4" and m16: "b mod 16 < 16" by simp_all
  have "a mod 4 * 16 + b div 16 < 64" using m4 b16 by linarith
  moreover have "b mod 16 * 4 + c div 64 < 64" using m16 c64 by linarith
  moreover have "a mod 4 * 16 < 64" using m4 by linarith
  moreover have "b mod 16 * 4 < 64" using m16 by linarith
  ultimately show ?thesis using a4 by simp
qed

lemma btoa_shape: "btoa bs = map sextet_char (byte_sextets bs) @ padding bs"
  by (induction bs rule: btoa.induct) simp_all

lemma byte_sextets_bound: "list_all (\<lambda>n. n < 64) (byte_sextets bs)"
proof (induction bs rule: byte_sextets.induct)
  case 1
  show ?case by simp
next
  case (2 a)
  show ?case using sextet_bound [of "unat a" "unat a" "unat a"] unat_byte [of a] by simp
next
  case (3 a b)
  show ?case using sextet_bound [of "unat a" "unat b" "unat b"] unat_byte [of a] unat_byte [of b] by simp
next
  case (4 a b c rest)
  then show ?case using sextet_bound [of "unat a" "unat b" "unat c"] unat_byte [of a] unat_byte [of b] unat_byte [of c] by simp
qed

lemma sextet_bytes_byte_sextets: "sextet_bytes (byte_sextets bs) = bs"
proof (induction bs rule: byte_sextets.induct)
  case 1
  show ?case by simp
next
  case (2 a)
  show ?case using sextet_arith [of "unat a" "unat a" "unat a"] unat_byte [of a] by simp
next
  case (3 a b)
  show ?case using sextet_arith [of "unat b" "unat b" "unat a"] unat_byte [of b] by simp
next
  case (4 a b c rest)
  then show ?case using sextet_arith [of "unat b" "unat c" "unat a"] unat_byte [of b] unat_byte [of c] by simp
qed

lemma byte_sextets_length: "length (byte_sextets bs) mod 4 \<noteq> Suc 0"
  by (induction bs rule: byte_sextets.induct) simp_all


lemma alphabet_distinct: "distinct alphabet"
  by (simp add: alphabet_def)

lemma alphabet_length: "length alphabet = 64"
  by (simp add: alphabet_def)

lemma index_of_nth: "distinct xs \<Longrightarrow> n < length xs \<Longrightarrow> index_of (xs ! n) xs = Some n"
proof (induction xs arbitrary: n)
  case Nil
  then show ?case by simp
next
  case (Cons x xs)
  then show ?case by (cases n) auto
qed

lemma char_sextet_sextet_char: "n < 64 \<Longrightarrow> char_sextet (sextet_char n) = Some n"
  by (simp add: char_sextet_def sextet_char_def index_of_nth alphabet_distinct alphabet_length)

lemma sextet_char_in_alphabet: "n < 64 \<Longrightarrow> sextet_char n \<in> set alphabet"
  by (simp add: sextet_char_def alphabet_length)

lemma sextets_chars: "list_all (\<lambda>n. n < 64) ns \<Longrightarrow> sextets (map sextet_char ns) = Some ns"
  by (induction ns) (simp_all add: char_sextet_sextet_char)

lemma alphabet_plain:
  "c \<in> set alphabet \<Longrightarrow> \<not> ascii_whitespace c \<and> c \<noteq> CHR ''=''"
  by (auto simp add: alphabet_def ascii_whitespace_def)

lemma body_plain:
  assumes "list_all (\<lambda>n. n < 64) ns" and "c \<in> set (map sextet_char ns)"
  shows "\<not> ascii_whitespace c \<and> c \<noteq> CHR ''=''"
proof -
  from assms(2) obtain n where n: "n \<in> set ns" and c: "c = sextet_char n"
    by (auto simp only: set_map image_iff)
  from assms(1) n have "n < 64" by (simp add: list_all_iff)
  then have "c \<in> set alphabet" unfolding c by (rule sextet_char_in_alphabet)
  then show ?thesis by (rule alphabet_plain)
qed

lemma padding_cases: "padding bs = [] \<or> padding bs = ''='' \<or> padding bs = ''==''"
  by (induction bs rule: padding.induct) simp_all

lemma btoa_length: "length (btoa bs) mod 4 = 0"
  by (induction bs rule: btoa.induct) simp_all

lemma btoa_no_whitespace: "filter (\<lambda>c. \<not> ascii_whitespace c) (btoa bs) = btoa bs"
proof -
  have "\<not> ascii_whitespace c" if "c \<in> set (btoa bs)" for c
  proof -
    from that have "c \<in> set (map sextet_char (byte_sextets bs)) \<or> c \<in> set (padding bs)"
      by (simp add: btoa_shape)
    then show ?thesis
    proof
      assume "c \<in> set (map sextet_char (byte_sextets bs))"
      from body_plain [OF byte_sextets_bound this] show ?thesis by simp
    next
      assume "c \<in> set (padding bs)"
      with padding_cases [of bs] have "c = CHR ''=''" by auto
      then show ?thesis by (simp add: ascii_whitespace_def)
    qed
  qed
  then show ?thesis by (simp add: filter_id_conv)
qed

lemma strip_padding_body:
  assumes plain: "CHR ''='' \<notin> set body"
    and pad: "pad = [] \<or> pad = ''='' \<or> pad = ''==''"
    and len: "length (body @ pad) mod 4 = 0"
  shows "strip_padding (body @ pad) = body"
proof -
  from pad consider "pad = []" | "pad = ''=''" | "pad = ''==''" by blast
  then show ?thesis
  proof cases
    case 1
    show ?thesis
    proof (cases "rev body")
      case Nil
      then show ?thesis using 1 by (simp add: strip_padding_def)
    next
      case (Cons x r)
      then have "x \<in> set body" by (metis list.set_intros(1) set_rev)
      with plain have "x \<noteq> CHR ''=''" by blast
      with Cons 1 show ?thesis by (simp add: strip_padding_def split: list.splits)
    qed
  next
    case 2
    show ?thesis
    proof (cases "rev body")
      case Nil
      with 2 len show ?thesis by simp
    next
      case (Cons y r)
      then have "y \<in> set body" by (metis list.set_intros(1) set_rev)
      with plain have y: "y \<noteq> CHR ''=''" by blast
      from Cons have "rev (y # r) = body" by (metis rev_rev_ident)
      with Cons 2 len y show ?thesis by (simp add: strip_padding_def)
    qed
  next
    case 3
    with len show ?thesis by (simp add: strip_padding_def)
  qed
qed

lemma strip_padding_btoa: "strip_padding (btoa bs) = map sextet_char (byte_sextets bs)"
proof -
  have "CHR ''='' \<notin> set (map sextet_char (byte_sextets bs))"
    using body_plain [OF byte_sextets_bound] by blast
  from strip_padding_body [OF this padding_cases] btoa_length [of bs]
  show ?thesis by (simp add: btoa_shape)
qed

lemma atob_btoa: "atob (btoa bs) = Inr bs"
  by (simp add: atob_def btoa_no_whitespace strip_padding_btoa byte_sextets_length
      sextets_chars byte_sextets_bound sextet_bytes_byte_sextets)

subsection \<open>Quantisation\<close>

lemma int16_bytes_word:
  "push_bit 8 (ucast (ucast (drop_bit 8 w) :: byte)) OR ucast (ucast w :: byte) = (w :: int16)"
  by (rule bit_word_eqI) (auto simp add: bit_simps)

lemma int16_elements_bytes: "int16_elements (Uint8Array_of_buffer ws) = ws"
  by (induction ws) (simp_all add: Uint8Array_of_buffer_def int16_bytes_def int16_bytes_word)

lemma Uint8Array_length: "length (Uint8Array_of_buffer ws) = 2 * length ws"
  by (induction ws) (simp_all add: Uint8Array_of_buffer_def int16_bytes_def)

lemma decode_createBlob_eq:
  assumes "samples \<noteq> []"
  shows "decode_createBlob samples =
     Inr \<lparr>numberOfChannels = 1, frames = length samples, sampleRate = 16000,
          channelData =
            [map (\<lambda>x. real_of_int (sint (ToInt16 (x * 32768))) / 32768) samples]\<rparr>"
proof -
  let ?ws = "map (\<lambda>x. ToInt16 (x * 32768)) samples"
  let ?bytes = "Uint8Array_of_buffer ?ws"
  have dec: "decode (to_text (data (createBlob samples))) = Inr ?bytes"
    by (simp add: createBlob_def to_text_def decode_def atob_btoa)
  have arr: "Int16Array_of_buffer ?bytes = Inr ?ws"
    by (simp add: Int16Array_of_buffer_def Uint8Array_length int16_elements_bytes)
  have nth: "map (\<lambda>i. real_of_int (sint (?ws ! i)) / 32768) [0..<length samples]
               = map (\<lambda>x. real_of_int (sint (ToInt16 (x * 32768))) / 32768) samples"
    by (rule nth_equalityI) simp_all
  from assms have pos: "length samples \<noteq> 0" by simp
  show ?thesis
    unfolding decode_createBlob_def dec
    using pos nth by (simp add: decodeAudioData_def arr)
qed

lemma js_trunc_near: "\<bar>real_of_int (js_trunc y) - y\<bar> < 1"
proof (cases "0 \<le> y")
  case True
  then have "js_trunc y = \<lfloor>y\<rfloor>" by (simp add: js_trunc_def)
  then show ?thesis by linarith
next
  case False
  then have "js_trunc y = - \<lfloor>- y\<rfloor>" by (simp add: js_trunc_def)
  then show ?thesis by linarith
qed

lemma js_trunc_range:
  assumes "- 32768 \<le> y" and "y < 32768"
  shows "- 32768 \<le> js_trunc y \<and> js_trunc y < 32768"
proof (cases "0 \<le> y")
  case True
  then have "js_trunc y = \<lfloor>y\<rfloor>" by (simp add: js_trunc_def)
  with True assms show ?thesis by linarith
next
  case False
  then have "js_trunc y = - \<lfloor>- y\<rfloor>" by (simp add: js_trunc_def)
  with False assms show ?thesis by linarith
qed

lemma sint_ToInt16:
  assumes "- 32768 \<le> y" and "y < 32768"
  shows "sint (ToInt16 y) = js_trunc y"
proof -
  from js_trunc_range [OF assms] have "- (2 ^ 15) \<le> js_trunc y" "js_trunc y < 2 ^ 15"
    by simp_all
  then have "signed_take_bit 15 (js_trunc y) = js_trunc y"
    by (simp only: signed_take_bit_int_eq_self)
  then show ?thesis by (simp add: ToInt16_def sint_sbintrunc')
qed

lemma quantization_error:
  assumes "- 1 \<le> x" and "x < 1"
  shows "\<bar>real_of_int (sint (ToInt16 (x * 32768))) / 32768 - x\<bar> < 1 / 32768"
proof -
  from assms have r: "- 32768 \<le> x * 32768" "x * 32768 < 32768" by simp_all
  have "\<bar>real_of_int (js_trunc (x * 32768)) - x * 32768\<bar> < 1" by (rule js_trunc_near)
  then have "\<bar>real_of_int (js_trunc (x * 32768)) / 32768 - x\<bar> < 1 / 32768"
    by (simp add: abs_if field_simps split: if_splits)
  then show ?thesis by (simp only: sint_ToInt16 [OF r])
qed

section \<open>What each part of a handler changes\<close>

lemma stop_sources_eq:
  "stop_sources xs s =
     s\<lparr>sources := filter (\<lambda>x. node_id x \<notin> node_id ` set xs) (sources s),
       trace := trace s @ map (\<lambda>x. source_stop (node_id x)) xs\<rparr>"
proof (induction xs arbitrary: s)
  case Nil
  show ?case by simp
next
  case (Cons x xs)
  show ?case
    by (simp add: Cons.IH call_def conj_commute)
qed

lemma stop_tracks_eq:
  "stop_tracks ts s = s\<lparr>trace := trace s @ map track_stop ts\<rparr>"
  by (induction ts arbitrary: s) (simp_all add: call_def)

lemma filter_all_out: "filter (\<lambda>x. f x \<notin> f ` set xs) xs = []"
  by (simp add: filter_empty_conv)

lemma start_times_append: "start_times (xs @ ys) = start_times xs @ start_times ys"
  by (simp add: start_times_def)

lemma start_times_stops: "start_times (map (\<lambda>x. source_stop (f x)) xs) = []"
  by (induction xs) (simp_all add: start_times_def)

lemma count_list_stops:
  "count_list (map (\<lambda>x. source_stop (f x)) xs) onAIStartSpeaking = 0"
  "count_list (map (\<lambda>x. source_stop (f x)) xs) onAIStopSpeaking = 0"
  by (induction xs) simp_all

lemma count_list_append: "count_list (xs @ ys) a = count_list xs a + count_list ys a"
  by (induction xs) simp_all

text \<open>The transcript branches touch the accumulators and report to the caller.\<close>

lemma handle_inputTranscription_frame:
  "nextStartTime (handle_inputTranscription m s) = nextStartTime s"
  "sources (handle_inputTranscription m s) = sources s"
  "fresh (handle_inputTranscription m s) = fresh s"
  "outputAudioContext (handle_inputTranscription m s) = outputAudioContext s"
  "start_times (trace (handle_inputTranscription m s)) = start_times (trace s)"
  "count_list (trace (handle_inputTranscription m s)) onAIStartSpeaking
     = count_list (trace s) onAIStartSpeaking"
  "count_list (trace (handle_inputTranscription m s)) onAIStopSpeaking
     = count_list (trace s) onAIStopSpeaking"
  by (simp_all add: handle_inputTranscription_def call_def start_times_def Let_def
      count_list_append split: option.splits)

lemma handle_outputTranscription_frame:
  "nextStartTime (handle_outputTranscription m s) = nextStartTime s"
  "sources (handle_outputTranscription m s) = sources s"
  "fresh (handle_outputTranscription m s) = fresh s"
  "outputAudioContext (handle_outputTranscription m s) = outputAudioContext s"
  "start_times (trace (handle_outputTranscription m s)) = start_times (trace s)"
  "count_list (trace (handle_outputTranscription m s)) onAIStartSpeaking
     = count_list (trace s) onAIStartSpeaking"
  "count_list (trace (handle_outputTranscription m s)) onAIStopSpeaking
     = count_list (trace s) onAIStopSpeaking"
  by (simp_all add: handle_outputTranscription_def call_def start_times_def Let_def
      count_list_append split: option.splits)

lemma handle_turnComplete_cases:
  "handle_turnComplete m s = (None, s) \<or> handle_turnComplete m s = (Some ReferenceError, s)"
  by (simp add: handle_turnComplete_def split: option.splits)

lemma handle_interrupted_skip: "\<not> interruption m \<Longrightarrow> handle_interrupted m s = s"
  by (simp add: handle_interrupted_def interruption_def split: option.splits)

lemma handle_interrupted_eq:
  "interruption m \<Longrightarrow>
   handle_interrupted m s =
     s\<lparr>sources := [], nextStartTime := 0,
       trace := trace s @ map (\<lambda>x. source_stop (node_id x)) (sources s) @ [onAIStopSpeaking]\<rparr>"
  by (simp add: handle_interrupted_def interruption_def stop_sources_eq filter_all_out
      call_def split: option.splits)

text \<open>The audio branch on a fragment that decodes.\<close>

lemma handle_audio_fragment:
  assumes "fragment m = Some b" and "outputAudioContext s = Some r"
  shows "handle_audio t m s =
     (None,
      s\<lparr>trace := trace s @ [onAIStartSpeaking, source_start (fresh s) (max (nextStartTime s) t)],
        nextStartTime := max (nextStartTime s) t + duration b,
        sources := sources s @ [\<lparr>node_id = fresh s, buffer = b\<rparr>],
        fresh := Suc (fresh s)\<rparr>)"
  using assms
  by (auto simp add: fragment_def handle_audio_def call_def Let_def
      split: sum.splits option.splits if_splits)

lemma handle_audio_no_fragment:
  "base64EncodedAudioString m = Inr None \<Longrightarrow> handle_audio t m s = (None, s)"
  by (simp add: handle_audio_def)

lemma handle_audio_announces:
  assumes "base64EncodedAudioString m = Inr (Some b64)" and "b64 \<noteq> []"
  shows "count_list (trace (snd (handle_audio t m s))) onAIStartSpeaking
           = Suc (count_list (trace s) onAIStartSpeaking)"
  using assms
  by (simp add: handle_audio_def call_def Let_def count_list_append
      split: sum.splits option.splits)

lemma handle_interrupted_keeps_starts:
  "count_list (trace (handle_interrupted m s)) onAIStartSpeaking
     = count_list (trace s) onAIStartSpeaking"
  by (cases "interruption m")
     (simp_all add: handle_interrupted_skip handle_interrupted_eq count_list_append
       count_list_stops)

lemma handle_interrupted_stop_count:
  "interruption m \<Longrightarrow>
   count_list (trace (handle_interrupted m s)) onAIStopSpeaking
     = Suc (count_list (trace s) onAIStopSpeaking)"
  by (simp add: handle_interrupted_eq count_list_append count_list_stops)

lemma onmessage_unfold:
  "onmessage t m s =
     (case handle_audio t m (handle_inputTranscription m s) of
        (Some e, s2) \<Rightarrow> (Some e, s2)
      | (None, s2) \<Rightarrow>
          (case handle_turnComplete m (handle_outputTranscription m s2) of
             (Some e, s4) \<Rightarrow> (Some e, s4)
           | (None, s4) \<Rightarrow> (None, handle_interrupted m s4)))"
  by (simp add: onmessage_def and_then_def completes_def split: prod.splits option.splits)

lemma onmessage_fragment:
  assumes "fragment m = Some b" and "outputAudioContext s = Some r" and "\<not> interruption m"
  shows "start_times (trace (snd (onmessage t m s)))
           = start_times (trace s) @ [max (nextStartTime s) t]"
    and "nextStartTime (snd (onmessage t m s)) = max (nextStartTime s) t + duration b"
    and "outputAudioContext (snd (onmessage t m s)) = Some r"
proof -
  let ?s1 = "handle_inputTranscription m s"
  have ctx: "outputAudioContext ?s1 = Some r"
    using assms(2) by (simp add: handle_inputTranscription_frame)
  obtain s2 where audio: "handle_audio t m ?s1 = (None, s2)"
    and s2: "s2 = ?s1\<lparr>trace := trace ?s1 @ [onAIStartSpeaking,
                         source_start (fresh ?s1) (max (nextStartTime ?s1) t)],
                      nextStartTime := max (nextStartTime ?s1) t + duration b,
                      sources := sources ?s1 @ [\<lparr>node_id = fresh ?s1, buffer = b\<rparr>],
                      fresh := Suc (fresh ?s1)\<rparr>"
    using handle_audio_fragment [OF assms(1) ctx] by simp
  let ?s3 = "handle_outputTranscription m s2"
  have final: "snd (onmessage t m s) = ?s3"
    using handle_turnComplete_cases [of m ?s3] audio assms(3)
    by (auto simp add: onmessage_unfold handle_interrupted_skip)
  show "start_times (trace (snd (onmessage t m s)))
           = start_times (trace s) @ [max (nextStartTime s) t]"
    by (simp add: final handle_outputTranscription_frame s2 start_times_append
        handle_inputTranscription_frame) (simp add: start_times_def)
  show "nextStartTime (snd (onmessage t m s)) = max (nextStartTime s) t + duration b"
    by (simp add: final handle_outputTranscription_frame s2 handle_inputTranscription_frame)
  show "outputAudioContext (snd (onmessage t m s)) = Some r"
    by (simp add: final handle_outputTranscription_frame s2 ctx)
qed

lemma handle_audio_frame:
  "outputAudioContext (snd (handle_audio t m s)) = outputAudioContext s"
  "set (sources s) \<subseteq> set (sources (snd (handle_audio t m s)))"
  by (auto simp add: handle_audio_def call_def Let_def split: sum.splits option.splits)

lemma handle_interrupted_context:
  "outputAudioContext (handle_interrupted m s) = outputAudioContext s"
  by (cases "interruption m") (simp_all add: handle_interrupted_skip handle_interrupted_eq)

lemma handle_interrupted_starts:
  "start_times (trace (handle_interrupted m s)) = start_times (trace s)"
proof (cases "interruption m")
  case True
  have "start_times [onAIStopSpeaking] = []" by (simp add: start_times_def)
  then show ?thesis
    by (simp add: handle_interrupted_eq [OF True] start_times_append start_times_stops)
next
  case False
  then show ?thesis by (simp add: handle_interrupted_skip)
qed

lemma onmessage_fragment_start:
  assumes "fragment m = Some b" and "outputAudioContext s = Some r"
  shows "start_times (trace (snd (onmessage t m s)))
           = start_times (trace s) @ [max (nextStartTime s) t]"
proof -
  let ?s1 = "handle_inputTranscription m s"
  have ctx: "outputAudioContext ?s1 = Some r"
    using assms(2) by (simp add: handle_inputTranscription_frame)
  obtain s2 where audio: "handle_audio t m ?s1 = (None, s2)"
    and s2: "start_times (trace s2) = start_times (trace s) @ [max (nextStartTime s) t]"
    using handle_audio_fragment [OF assms(1) ctx, of t]
    by (simp add: start_times_append handle_inputTranscription_frame)
       (simp add: start_times_def)
  let ?s3 = "handle_outputTranscription m s2"
  have "snd (onmessage t m s) = ?s3 \<or> snd (onmessage t m s) = handle_interrupted m ?s3"
    using handle_turnComplete_cases [of m ?s3] audio
    by (auto simp add: onmessage_unfold)
  then show ?thesis
    by (auto simp add: handle_interrupted_starts handle_outputTranscription_frame s2)
qed

lemma onmessage_context:
  "outputAudioContext (snd (onmessage t m s)) = outputAudioContext s"
proof -
  let ?s1 = "handle_inputTranscription m s"
  obtain r s2 where audio: "handle_audio t m ?s1 = (r, s2)" by (cases "handle_audio t m ?s1")
  have s2: "outputAudioContext s2 = outputAudioContext s"
    using handle_audio_frame(1) [of t m ?s1] audio
    by (simp add: handle_inputTranscription_frame)
  show ?thesis
    using handle_turnComplete_cases [of m "handle_outputTranscription m s2"] audio s2
    by (cases r)
       (auto simp add: onmessage_unfold handle_interrupted_context
         handle_outputTranscription_frame)
qed

text \<open>A handler that completes on an interruption has run the interruption branch.\<close>

lemma onmessage_interrupted:
  assumes "interruption m" and "fst (onmessage t m s) = None"
  shows "\<exists>s4. snd (onmessage t m s) = handle_interrupted m s4
              \<and> set (sources s) \<subseteq> set (sources s4)"
proof -
  let ?s1 = "handle_inputTranscription m s"
  obtain r s2 where audio: "handle_audio t m ?s1 = (r, s2)" by (cases "handle_audio t m ?s1")
  let ?s4 = "handle_outputTranscription m s2"
  have sub: "set (sources s) \<subseteq> set (sources ?s4)"
    using handle_audio_frame(2) [of ?s1 t m] audio
    by (simp add: handle_inputTranscription_frame handle_outputTranscription_frame)
  have "snd (onmessage t m s) = handle_interrupted m ?s4"
    using handle_turnComplete_cases [of m ?s4] audio assms(2)
    by (cases r) (auto simp add: onmessage_unfold)
  with sub show ?thesis by blast
qed

lemma close_eq:
  "close s =
     s\<lparr>trace := trace s @ handle_calls s @ map (\<lambda>x. source_stop (node_id x)) (sources s),
       scriptProcessor := map_option (\<lambda>p. p\<lparr>onaudioprocess := False\<rparr>) (scriptProcessor s),
       sources := []\<rparr>"
  by (simp add: close_def handle_calls_def call_def stop_sources_eq stop_tracks_eq
      filter_all_out Let_def split: option.splits)

subsection \<open>The scheduling rule\<close>

lemma schedule_length: "length (schedule c xs) = length xs"
  by (induction c xs rule: schedule.induct) simp_all

lemma schedule_adjacent:
  "Suc k < length xs \<Longrightarrow>
   schedule c xs ! Suc k = max (schedule c xs ! k + snd (xs ! k)) (fst (xs ! Suc k))"
proof (induction c xs arbitrary: k rule: schedule.induct)
  case (1 cursor)
  then show ?case by simp
next
  case (2 cursor clock d rest)
  show ?case
  proof (cases k)
    case 0
    with 2 obtain clock' d' rest' where "rest = (clock', d') # rest'"
      by (cases rest) auto
    with 0 show ?thesis by simp
  next
    case (Suc j)
    with 2 show ?thesis by simp
  qed
qed

lemma run_schedule:
  assumes "list_all (\<lambda>(t, m). fragment m \<noteq> None \<and> \<not> interruption m) ms"
    and "outputAudioContext s = Some r"
  shows "start_times (trace (run ms s))
           = start_times (trace s)
             @ schedule (nextStartTime s) (map (\<lambda>(t, m). (t, fragment_duration m)) ms)"
  using assms
proof (induction ms arbitrary: s)
  case Nil
  show ?case by simp
next
  case (Cons tm ms)
  obtain t m where tm: "tm = (t, m)" by (cases tm)
  from Cons.prems tm obtain b where b: "fragment m = Some b" and ni: "\<not> interruption m"
    and rest: "list_all (\<lambda>(t, m). fragment m \<noteq> None \<and> \<not> interruption m) ms"
    by auto
  let ?s' = "snd (onmessage t m s)"
  note step = onmessage_fragment [OF b Cons.prems(2) ni, of t]
  have "start_times (trace (run ms ?s'))
          = start_times (trace ?s')
            @ schedule (nextStartTime ?s') (map (\<lambda>(t, m). (t, fragment_duration m)) ms)"
    by (rule Cons.IH [OF rest step(3)])
  then show ?case
    by (simp add: tm step(1) step(2) fragment_duration_def b)
qed

lemma schedule_cursor:
  "xs \<noteq> [] \<Longrightarrow>
   foldl (\<lambda>c (t, d). max c t + d) c xs = last (schedule c xs) + snd (last xs)"
proof (induction c xs rule: schedule.induct)
  case (1 cursor)
  then show ?case by simp
next
  case (2 cursor clock d rest)
  then show ?case by (cases rest) auto
qed

lemma run_cursor:
  assumes "list_all (\<lambda>(t, m). fragment m \<noteq> None \<and> \<not> interruption m) ms"
    and "outputAudioContext s = Some r"
  shows "nextStartTime (run ms s)
           = foldl (\<lambda>c (t, d). max c t + d) (nextStartTime s)
               (map (\<lambda>(t, m). (t, fragment_duration m)) ms)"
  using assms
proof (induction ms arbitrary: s)
  case Nil
  show ?case by simp
next
  case (Cons tm ms)
  obtain t m where tm: "tm = (t, m)" by (cases tm)
  from Cons.prems tm obtain b where b: "fragment m = Some b" and ni: "\<not> interruption m"
    and rest: "list_all (\<lambda>(t, m). fragment m \<noteq> None \<and> \<not> interruption m) ms"
    by auto
  note step = onmessage_fragment [OF b Cons.prems(2) ni, of t]
  show ?case
    using Cons.IH [OF rest step(3)]
    by (simp add: tm step(2) fragment_duration_def b)
qed

section \<open>Turn completion\<close>

text \<open>
  No handler of a message calls \<^verbatim>\<open>onTurnComplete\<close>, whatever the message and the
  state, and the handler of a message with the turn-complete flag always throws.
\<close>

lemma handle_audio_no_onTurnComplete:
  "(onTurnComplete x \<in> set (trace (snd (handle_audio t m s)))) = (onTurnComplete x \<in> set (trace s))"
  by (auto simp add: handle_audio_def call_def Let_def split: sum.splits option.splits)

lemma handle_interrupted_no_onTurnComplete:
  "(onTurnComplete x \<in> set (trace (handle_interrupted m s))) = (onTurnComplete x \<in> set (trace s))"
  by (cases "interruption m")
     (auto simp add: handle_interrupted_skip handle_interrupted_eq)

lemma handle_transcription_no_onTurnComplete:
  "(onTurnComplete x \<in> set (trace (handle_inputTranscription m s)))
     = (onTurnComplete x \<in> set (trace s))"
  "(onTurnComplete x \<in> set (trace (handle_outputTranscription m s)))
     = (onTurnComplete x \<in> set (trace s))"
  by (auto simp add: handle_inputTranscription_def handle_outputTranscription_def call_def
      Let_def split: option.splits)

lemma onmessage_never_calls_onTurnComplete:
  "(onTurnComplete x \<in> set (trace (snd (onmessage t m s)))) = (onTurnComplete x \<in> set (trace s))"
proof -
  let ?s1 = "handle_inputTranscription m s"
  obtain r s2 where audio: "handle_audio t m ?s1 = (r, s2)" by (cases "handle_audio t m ?s1")
  have s2: "(onTurnComplete x \<in> set (trace s2)) = (onTurnComplete x \<in> set (trace s))"
    using handle_audio_no_onTurnComplete [of x t m ?s1] audio
    by (simp add: handle_transcription_no_onTurnComplete)
  let ?s3 = "handle_outputTranscription m s2"
  have "snd (onmessage t m s) = s2 \<or> snd (onmessage t m s) = ?s3
        \<or> snd (onmessage t m s) = handle_interrupted m ?s3"
    using handle_turnComplete_cases [of m ?s3] audio
    by (cases r) (auto simp add: onmessage_unfold)
  then show ?thesis
    by (elim disjE)
       (simp_all add: s2 handle_transcription_no_onTurnComplete
          handle_interrupted_no_onTurnComplete)
qed

lemma turn_complete_always_throws:
  assumes "serverContent m = Some sc" and "turnComplete sc"
  shows "fst (onmessage t m s) \<noteq> None"
proof -
  let ?s1 = "handle_inputTranscription m s"
  obtain r s2 where audio: "handle_audio t m ?s1 = (r, s2)" by (cases "handle_audio t m ?s1")
  have "handle_turnComplete m s' = (Some ReferenceError, s')" for s'
    using assms by (simp add: handle_turnComplete_def)
  with audio show ?thesis by (cases r) (simp_all add: onmessage_unfold)
qed

text \<open>
  C1. The claim: when a turn-complete signal arrives after input transcript fragments,
  the session calls \<^verbatim>\<open>onTurnComplete\<close> exactly once with their concatenation and
  resets both accumulators. The code does neither. After the fragments \<^verbatim>\<open>Hel\<close> and
  \<^verbatim>\<open>lo \<close> for the student and \<^verbatim>\<open>Hi\<close> for the coach, the handler of the
  turn-complete signal throws a ReferenceError; the trace holds the three transcription
  updates and no \<^verbatim>\<open>onTurnComplete\<close>, and the accumulators still hold \<^verbatim>\<open>Hello \<close>
  and \<^verbatim>\<open>Hi\<close>.
\<close>

theorem turn_complete_not_delivered:
  "onmessage 0 turn_complete_signal
     (run [(0, input_fragment ''Hel''), (0, input_fragment ''lo ''),
           (0, output_fragment ''Hi'')] opened)
   = (Some ReferenceError,
      opened\<lparr>currentInputTranscription := ''Hello '',
             currentOutputTranscription := ''Hi'',
             trace := [onTranscriptionUpdate ''Hel'' [],
                       onTranscriptionUpdate ''Hello '' [],
                       onTranscriptionUpdate ''Hello '' ''Hi'']\<rparr>)"
  by (simp add: fixture_defs handler_defs)

section \<open>Remote errors\<close>

text \<open>On every session and error event, \<^verbatim>\<open>onerror\<close> makes the two calls and no other.\<close>

lemma onerror_only_notifies:
  "onerror e s =
     s\<lparr>trace := trace s @ [onError (''Live session error: '' @ or_else e ''Unknown error''),
                             onClose]\<rparr>"
  by (simp add: onerror_def call_def)

text \<open>
  C2. The claim: a remote error is reported once through \<^verbatim>\<open>onError\<close> and is
  followed at once by the full teardown of \<^verbatim>\<open>close\<close>. The code reports the error
  once and calls \<^verbatim>\<open>onClose\<close>, with the comment that this closes the session, but
  it releases nothing. On an open session with one source in flight, the error
  \<^verbatim>\<open>socket lost\<close> adds the two callbacks to the trace and nothing else: no track is
  stopped, no audio context is closed, no source is stopped, and the session still holds
  the stream, both contexts and the source. (The caller's \<^verbatim>\<open>onClose\<close> in the
  speaking interface drops its reference to the handle and does not call \<^verbatim>\<open>close\<close>
  either.)
\<close>

theorem remote_error_releases_nothing:
  "onerror (Some ''socket lost'') (run [(0, audio_fragment ''AAA='')] opened)
   = (run [(0, audio_fragment ''AAA='')] opened)
       \<lparr>trace := [onAIStartSpeaking, source_start 0 0,
                  onError ''Live session error: socket lost'', onClose]\<rparr>
   \<and> stream (run [(0, audio_fragment ''AAA='')] opened) = Some [0]
   \<and> inputAudioContext (run [(0, audio_fragment ''AAA='')] opened) = Some 16000
   \<and> outputAudioContext (run [(0, audio_fragment ''AAA='')] opened) = Some 24000
   \<and> map node_id (sources (run [(0, audio_fragment ''AAA='')] opened)) = [0]"
  by (simp add: fixture_defs handler_defs codec_defs)

section \<open>Failure of the set-up\<close>

text \<open>Whatever step of the set-up fails, the session makes the two calls and no other.\<close>

lemma failed_setup_only_notifies:
  assumes "startLiveSpeakingSession pf = (Some e, s)"
  shows "trace s = [onError (''Failed to start speaking session: ''
                             @ or_else (message e) ''Microphone access denied or unknown error.''),
                    onClose]"
  using assms
  by (auto simp add: startLiveSpeakingSession_def catch_def call_def initial_def Let_def
      split: sum.splits option.splits)

text \<open>
  C3. The claim: when the set-up fails, every resource acquired before the failure is
  released before the error reaches the caller. The \<^verbatim>\<open>catch\<close> block reports the
  error, calls \<^verbatim>\<open>onClose\<close> and throws; it releases nothing, although \<^verbatim>\<open>close\<close>
  releases the same handles. With the microphone granted, both audio contexts created
  and the connection refused, the error is thrown while the session holds the stream
  and both contexts, and the trace has no call that stops a track or closes a context.
\<close>

theorem failed_setup_releases_nothing:
  "startLiveSpeakingSession
     (granted\<lparr>connect := Some (PlatformFailure (Some ''handshake failed''))\<rparr>)
   = (Some (PlatformFailure (Some ''handshake failed'')),
      initial\<lparr>stream := Some [0], inputAudioContext := Some 16000,
              outputAudioContext := Some 24000,
              trace := [onError ''Failed to start speaking session: handshake failed'',
                        onClose]\<rparr>)"
  by (simp add: fixture_defs handler_defs)

section \<open>Closing twice\<close>

text \<open>
  C4, as stated: a second \<^verbatim>\<open>close\<close> releases nothing again, because the first one
  nulled every handle. It fails: \<^verbatim>\<open>close\<close> assigns no handle, and on the opened
  session the two calls stop the track twice, close each context twice and close the
  remote session twice.
\<close>

theorem second_close_releases_again:
  "count_list (trace (close (close opened))) (track_stop 0) = 2
   \<and> count_list (trace (close (close opened))) inputAudioContext_close = 2
   \<and> count_list (trace (close (close opened))) outputAudioContext_close = 2
   \<and> count_list (trace (close (close opened))) session_close = 2
   \<and> stream (close opened) = Some [0]
   \<and> inputAudioContext (close opened) = Some 16000
   \<and> outputAudioContext (close opened) = Some 24000"
  by (simp add: fixture_defs handler_defs)

text \<open>
  C4, amended: a second \<^verbatim>\<open>close\<close> after a completed first one makes the release
  calls on the retained handles again (the remote session, the tracks, the two audio
  contexts, the processor and the stream source: \<^verbatim>\<open>close\<close> nulls none of them),
  stops no source again, since the first call emptied the in-flight set, and leaves
  every variable of the session as the first call left it.
\<close>

theorem second_close_repeats_handle_release:
  "close (close s) = (close s)\<lparr>trace := trace (close s) @ handle_calls s\<rparr>
   \<and> sources (close s) = []
   \<and> stream (close s) = stream s
   \<and> inputAudioContext (close s) = inputAudioContext s
   \<and> outputAudioContext (close s) = outputAudioContext s
   \<and> mediaStreamSource (close s) = mediaStreamSource s
   \<and> (scriptProcessor (close s) = None) = (scriptProcessor s = None)"
  apply (subst close_eq [of "close s"])
  apply (simp add: close_eq handle_calls_def split: option.splits)
  done

section \<open>The codec round trip\<close>

text \<open>
  Below full scale the round trip is within one quantisation step: for a chunk that is
  not empty and whose samples are at least -1 and less than 1, the decoded buffer has one
  channel with a value for every sample, less than 1/32768 away from it. (An empty chunk
  has no frame, and the buffer for it is refused.)
\<close>

lemma round_trip_below_full_scale:
  assumes "samples \<noteq> []" and "list_all (\<lambda>x. - 1 \<le> x \<and> x < 1) samples"
  shows "\<exists>ys. map_sum id channelData (decode_createBlob samples) = Inr [ys]
              \<and> length ys = length samples
              \<and> (\<forall>k < length samples. \<bar>ys ! k - samples ! k\<bar> < 1 / 32768)"
proof -
  let ?ys = "map (\<lambda>x. real_of_int (sint (ToInt16 (x * 32768))) / 32768) samples"
  have "\<bar>?ys ! k - samples ! k\<bar> < 1 / 32768" if "k < length samples" for k
  proof -
    from assms(2) that have "- 1 \<le> samples ! k \<and> samples ! k < 1"
      by (simp add: list_all_length)
    then have "\<bar>real_of_int (sint (ToInt16 (samples ! k * 32768))) / 32768 - samples ! k\<bar>
                 < 1 / 32768"
      by (intro quantization_error) simp_all
    with that show ?thesis by (simp only: nth_map)
  qed
  then show ?thesis
    by (intro exI [of _ ?ys]) (simp add: decode_createBlob_eq [OF assms(1)])
qed

text \<open>
  C5. The claim: for samples in the closed interval from -1 to 1, decoding the encoded
  blob gives each sample back within 1/32768. The code breaks it at the sample 1:
  1 * 32768 = 32768 does not fit 16 signed bits, the store into the \<^verbatim>\<open>Int16Array\<close>
  wraps it to -32768, and the round trip returns -1, an error of 2.
\<close>

theorem full_scale_sample_wraps:
  "decode_createBlob [1]
   = Inr \<lparr>numberOfChannels = 1, frames = 1, sampleRate = 16000, channelData = [[- 1]]\<rparr>"
  by (simp add: decode_createBlob_def to_text_def codec_defs)

section \<open>Playback scheduling\<close>

text \<open>
  C6, as stated: the start of buffer k always equals the end of buffer k-1. It fails
  when the output clock has passed that end: a first buffer of one frame enqueued at
  clock 0 ends at 1/24000, and a second buffer enqueued at clock 5 starts at 5.
\<close>

theorem playback_gap_after_stall:
  "start_times (trace (run [(0, audio_fragment ''AAA=''), (5, audio_fragment ''AAAAAA=='')]
                           opened)) = [0, 5]
   \<and> nextStartTime (run [(0, audio_fragment ''AAA='')] opened) = 1 / 24000
   \<and> start_times (trace (run [(0, audio_fragment ''AAA=''), (5, audio_fragment ''AAAAAA=='')]
                             opened)) ! 1
       \<noteq> nextStartTime (run [(0, audio_fragment ''AAA='')] opened)"
  by (simp add: fixture_defs handler_defs codec_defs start_times_def)

text \<open>
  C6, amended: for buffers enqueued in order with no interruption between them, each
  buffer starts at the larger of \<^verbatim>\<open>nextStartTime\<close> and the output clock, and
  \<^verbatim>\<open>nextStartTime\<close> becomes that start plus the buffer's duration. So buffer k starts
  at the larger of the end of buffer k-1 and the clock at its arrival: never before
  that end (no overlap), and at that end (no gap) when the clock has not passed it.
\<close>

theorem playback_schedule:
  assumes "list_all (\<lambda>(t, m). fragment m \<noteq> None \<and> \<not> interruption m) ms"
    and "outputAudioContext s \<noteq> None"
  shows "start_times (trace (run ms s))
           = start_times (trace s)
             @ schedule (nextStartTime s) (map (\<lambda>(t, m). (t, fragment_duration m)) ms)
         \<and> (ms \<noteq> [] \<longrightarrow>
              nextStartTime (run ms s)
              = last (schedule (nextStartTime s) (map (\<lambda>(t, m). (t, fragment_duration m)) ms))
                + fragment_duration (snd (last ms)))
         \<and> (\<forall>k. Suc k < length ms \<longrightarrow>
               schedule (nextStartTime s) (map (\<lambda>(t, m). (t, fragment_duration m)) ms) ! Suc k
               = max (schedule (nextStartTime s) (map (\<lambda>(t, m). (t, fragment_duration m)) ms) ! k
                      + fragment_duration (snd (ms ! k)))
                     (fst (ms ! Suc k)))"
proof -
  from assms(2) obtain r where r: "outputAudioContext s = Some r" by auto
  let ?plan = "map (\<lambda>(t, m). (t, fragment_duration m)) ms"
  have adj: "schedule (nextStartTime s) ?plan ! Suc k
               = max (schedule (nextStartTime s) ?plan ! k + fragment_duration (snd (ms ! k)))
                     (fst (ms ! Suc k))"
    if "Suc k < length ms" for k
  proof -
    from that have k: "Suc k < length ?plan" and k': "k < length ms" by simp_all
    show ?thesis
      using schedule_adjacent [OF k, of "nextStartTime s"] that k'
      by (simp add: case_prod_unfold)
  qed
  have cursor: "nextStartTime (run ms s)
                  = last (schedule (nextStartTime s) ?plan) + fragment_duration (snd (last ms))"
    if "ms \<noteq> []"
  proof -
    from that have "?plan \<noteq> []" by simp
    from schedule_cursor [OF this, of "nextStartTime s"] that show ?thesis
      by (simp add: run_cursor [OF assms(1) r] last_map case_prod_unfold)
  qed
  show ?thesis
    using run_schedule [OF assms(1) r] adj cursor by blast
qed

theorem playback_schedule_witness:
  "list_all (\<lambda>(t, m). fragment m \<noteq> None \<and> \<not> interruption m)
     [(0 :: real, audio_fragment ''AAA=''), (5, audio_fragment ''AAAAAA=='')]
   \<and> outputAudioContext opened \<noteq> None
   \<and> start_times (trace (run [(0, audio_fragment ''AAA=''), (5, audio_fragment ''AAAAAA=='')]
                              opened)) = [0, 5]
   \<and> nextStartTime (run [(0, audio_fragment ''AAA=''), (5, audio_fragment ''AAAAAA=='')]
                        opened) = 5 + 2 / 24000"
  using playback_schedule [of "[(0, audio_fragment ''AAA=''), (5, audio_fragment ''AAAAAA=='')]"
      opened]
  by (simp add: fixture_defs handler_defs codec_defs fragment_def interruption_def
      fragment_duration_def start_times_def)

section \<open>Interruption\<close>

text \<open>
  C7. After the handler of an interruption has completed, every source that was in
  flight has been stopped, the in-flight set is empty and \<^verbatim>\<open>nextStartTime\<close> is 0;
  the buffer of a following fragment, which arrives at the clock reading \<open>t'\<close>, is
  started at \<open>t'\<close>. (A reading of the output clock is not negative.)
\<close>

theorem interruption_flushes:
  assumes "interruption m" and "fst (onmessage t m s) = None"
    and "fragment m' = Some b" and "0 \<le> t'" and "outputAudioContext s \<noteq> None"
  shows "sources (snd (onmessage t m s)) = []
       \<and> nextStartTime (snd (onmessage t m s)) = 0
       \<and> (\<forall>x \<in> set (sources s). source_stop (node_id x) \<in> set (trace (snd (onmessage t m s))))
       \<and> start_times (trace (snd (onmessage t' m' (snd (onmessage t m s)))))
           = start_times (trace (snd (onmessage t m s))) @ [t']"
proof -
  let ?s' = "snd (onmessage t m s)"
  from onmessage_interrupted [OF assms(1,2)] obtain s4
    where s': "?s' = handle_interrupted m s4" and sub: "set (sources s) \<subseteq> set (sources s4)"
    by blast
  have flushed: "sources ?s' = []" and cursor: "nextStartTime ?s' = 0"
    by (simp_all add: s' handle_interrupted_eq [OF assms(1)])
  have stopped: "source_stop (node_id x) \<in> set (trace ?s')" if "x \<in> set (sources s)" for x
    using that sub by (auto simp add: s' handle_interrupted_eq [OF assms(1)])
  from assms(5) obtain r where "outputAudioContext ?s' = Some r"
    by (auto simp add: onmessage_context)
  from onmessage_fragment_start [OF assms(3) this, of t']
  have "start_times (trace (snd (onmessage t' m' ?s'))) = start_times (trace ?s') @ [t']"
    using assms(4) by (simp add: cursor)
  with flushed cursor stopped show ?thesis by blast
qed

theorem interruption_flushes_witness:
  "interruption interruption_signal
   \<and> fst (onmessage 6 interruption_signal
            (run [(0 :: real, audio_fragment ''AAA='')] opened)) = None
   \<and> fragment (audio_fragment ''AAAAAA=='') \<noteq> None
   \<and> sources (snd (onmessage 6 interruption_signal
                     (run [(0, audio_fragment ''AAA='')] opened))) = []
   \<and> trace (snd (onmessage 7 (audio_fragment ''AAAAAA=='')
              (snd (onmessage 6 interruption_signal
                     (run [(0, audio_fragment ''AAA='')] opened)))))
     = [onAIStartSpeaking, source_start 0 0, source_stop 0, onAIStopSpeaking,
        onAIStartSpeaking, source_start 1 7]"
  using interruption_flushes [of interruption_signal 6
      "run [(0, audio_fragment ''AAA='')] opened" "audio_fragment ''AAAAAA==''"
      "\<lparr>numberOfChannels = 1, frames = 2, sampleRate = 24000, channelData = [[0, 0]]\<rparr>" 7]
  by (simp add: fixture_defs handler_defs codec_defs fragment_def interruption_def)

section \<open>The start of the coach's speech\<close>

text \<open>
  C8, as stated: within a burst of audio fragments \<^verbatim>\<open>onAIStartSpeaking\<close> is called
  on the first fragment only. It fails: a second fragment that arrives while the source
  of the first is still in flight is announced again.
\<close>

theorem start_announced_again_within_burst:
  "trace (run [(0, audio_fragment ''AAA=''), (0, audio_fragment ''AAA='')] opened)
     = [onAIStartSpeaking, source_start 0 0, onAIStartSpeaking, source_start 1 (1 / 24000)]
   \<and> map node_id (sources (run [(0, audio_fragment ''AAA='')] opened)) = [0]"
  by (simp add: fixture_defs handler_defs codec_defs)

text \<open>
  C8, amended: \<^verbatim>\<open>onAIStartSpeaking\<close> is called once for every message that carries
  an output audio fragment, whether or not coach audio is already scheduled or playing.
\<close>

theorem start_announced_for_every_fragment:
  assumes "base64EncodedAudioString m = Inr (Some b64)" and "b64 \<noteq> []"
  shows "count_list (trace (snd (onmessage t m s))) onAIStartSpeaking
           = Suc (count_list (trace s) onAIStartSpeaking)"
proof -
  let ?s1 = "handle_inputTranscription m s"
  obtain r s2 where audio: "handle_audio t m ?s1 = (r, s2)" by (cases "handle_audio t m ?s1")
  have s2: "count_list (trace s2) onAIStartSpeaking = Suc (count_list (trace s) onAIStartSpeaking)"
    using handle_audio_announces [OF assms, of t ?s1] audio
    by (simp add: handle_inputTranscription_frame)
  let ?s3 = "handle_outputTranscription m s2"
  have "snd (onmessage t m s) = s2 \<or> snd (onmessage t m s) = ?s3
        \<or> snd (onmessage t m s) = handle_interrupted m ?s3"
    using handle_turnComplete_cases [of m ?s3] audio
    by (cases r) (auto simp add: onmessage_unfold)
  then show ?thesis
    by (elim disjE)
       (simp_all add: s2 handle_outputTranscription_frame handle_interrupted_keeps_starts)
qed

theorem start_announced_for_every_fragment_witness:
  "base64EncodedAudioString (audio_fragment ''AAA='') = Inr (Some ''AAA='')
   \<and> sources (run [(0, audio_fragment ''AAA='')] opened) \<noteq> []
   \<and> count_list (trace (run [(0, audio_fragment ''AAA='')] opened)) onAIStartSpeaking = 1
   \<and> count_list (trace (snd (onmessage 0 (audio_fragment ''AAA='')
                                (run [(0, audio_fragment ''AAA='')] opened))))
        onAIStartSpeaking = 2"
  using start_announced_for_every_fragment [of "audio_fragment ''AAA=''" "''AAA=''" 0
      "run [(0, audio_fragment ''AAA='')] opened"]
  by (simp add: fixture_defs handler_defs codec_defs)

section \<open>Decoding a blob\<close>

text \<open>
  C9, as stated: a byte length that is not a multiple of twice the channel count makes
  the decoder drop the trailing partial sample instead of raising. It fails for an odd
  byte length: three bytes, mono, raise a RangeError.
\<close>

theorem odd_byte_length_raises:
  "decodeAudioData [0, 0x80, 1] 24000 1 = Inl RangeError"
  by (simp add: decodeAudioData_def Int16Array_of_buffer_def)

text \<open>
  C9, amended: the decoder reads its bytes as 16-bit signed little-endian samples,
  divides each by 32768 and, when there is at least one whole frame, produces
  the whole number of frames in (samples / channels), sample \<open>i * channels + c\<close> going
  to frame \<open>i\<close> of channel \<open>c\<close>; the samples of a trailing partial frame are
  dropped. A byte length that is odd raises a RangeError.
\<close>

theorem decodeAudioData_layout:
  "(odd (length bytes) \<longrightarrow> decodeAudioData bytes rate n = Inl RangeError)
   \<and> (even (length bytes) \<and> 0 < rate \<and> 0 < n \<and> n \<le> length bytes div 2 \<longrightarrow>
        (\<exists>b. decodeAudioData bytes rate n = Inr b
             \<and> numberOfChannels b = n \<and> sampleRate b = rate
             \<and> frames b = length bytes div 2 div n
             \<and> length (channelData b) = n
             \<and> (\<forall>c < n. length (channelData b ! c) = frames b
                  \<and> (\<forall>i < frames b.
                        channelData b ! c ! i
                        = real_of_int (sample_value (bytes ! (2 * (i * n + c)))
                                                    (bytes ! (2 * (i * n + c) + 1)))
                          / 32768))))"
proof (intro conjI impI)
  assume "odd (length bytes)"
  then show "decodeAudioData bytes rate n = Inl RangeError"
    by (simp add: decodeAudioData_def Int16Array_of_buffer_def odd_iff_mod_2_eq_one)
next
  assume a: "even (length bytes) \<and> 0 < rate \<and> 0 < n \<and> n \<le> length bytes div 2"
  let ?f = "length bytes div 2 div n"
  let ?b = "\<lparr>numberOfChannels = n, frames = ?f, sampleRate = rate,
             channelData =
               map (\<lambda>channel.
                      map (\<lambda>i. real_of_int (sint (int16_elements bytes ! (i * n + channel)))
                                 / 32768) [0..<?f])
                   [0..<n]\<rparr>"
  from a have dec: "decodeAudioData bytes rate n = Inr ?b"
    by (intro decodeAudioData_even) simp_all
  have val: "channelData ?b ! c ! i
               = real_of_int (sample_value (bytes ! (2 * (i * n + c)))
                                           (bytes ! (2 * (i * n + c) + 1))) / 32768"
    if "c < n" and "i < ?f" for c i
  proof -
    from index_bound [OF that] have "i * n + c < ?f * n" .
    also have "\<dots> \<le> length bytes div 2" by simp
    finally have "i * n + c < length bytes div 2" .
    from int16_elements_nth [OF this] that show ?thesis
      by (simp add: le_word_signed)
  qed
  show "\<exists>b. decodeAudioData bytes rate n = Inr b
             \<and> numberOfChannels b = n \<and> sampleRate b = rate
             \<and> frames b = length bytes div 2 div n
             \<and> length (channelData b) = n
             \<and> (\<forall>c < n. length (channelData b ! c) = frames b
                  \<and> (\<forall>i < frames b.
                        channelData b ! c ! i
                        = real_of_int (sample_value (bytes ! (2 * (i * n + c)))
                                                    (bytes ! (2 * (i * n + c) + 1)))
                          / 32768))"
  proof (intro exI [of _ ?b] conjI allI impI)
    show "decodeAudioData bytes rate n = Inr ?b" by (rule dec)
    show "numberOfChannels ?b = n" "sampleRate ?b = rate" "frames ?b = ?f"
      "length (channelData ?b) = n"
      by simp_all
    fix c assume c: "c < n"
    then show "length (channelData ?b ! c) = frames ?b" by simp
    fix i assume "i < frames ?b"
    then have "i < ?f" by simp
    from val [OF c this]
    show "channelData ?b ! c ! i
            = real_of_int (sample_value (bytes ! (2 * (i * n + c)))
                                        (bytes ! (2 * (i * n + c) + 1))) / 32768" .
  qed
qed

theorem decodeAudioData_layout_witness:
  "odd (length [0, 0x80, 1 :: byte])
   \<and> decodeAudioData [0, 0x80, 1] 24000 1 = Inl RangeError
   \<and> even (length [0, 0x80, 1, 0, 0xFF, 0xFF :: byte])
   \<and> decodeAudioData [0, 0x80, 1, 0, 0xFF, 0xFF] 24000 2
       = Inr \<lparr>numberOfChannels = 2, frames = 1, sampleRate = 24000,
              channelData = [[- 1], [1 / 32768]]\<rparr>"
  using decodeAudioData_layout [of "[0, 0x80, 1]" 24000 1]
    decodeAudioData_layout [of "[0, 0x80, 1, 0, 0xFF, 0xFF]" 24000 2]
  by (simp add: decodeAudioData_def Int16Array_of_buffer_def upt_0_2)

section \<open>An interruption with nothing in flight\<close>

text \<open>
  C10. When the handler of an interruption completes on a session with no source in
  flight, it still calls \<^verbatim>\<open>onAIStopSpeaking\<close>, as its last call; when the message
  carries no audio fragment the handler makes no \<^verbatim>\<open>onAIStartSpeaking\<close> call, so
  the caller sees a stop that no start precedes.
\<close>

theorem stop_announced_without_start:
  assumes "interruption m" and "sources s = []" and "fst (onmessage t m s) = None"
    and "base64EncodedAudioString m = Inr None"
  shows "last (trace (snd (onmessage t m s))) = onAIStopSpeaking
       \<and> count_list (trace (snd (onmessage t m s))) onAIStopSpeaking
           = Suc (count_list (trace s) onAIStopSpeaking)
       \<and> count_list (trace (snd (onmessage t m s))) onAIStartSpeaking
           = count_list (trace s) onAIStartSpeaking"
proof -
  let ?s1 = "handle_inputTranscription m s"
  let ?s3 = "handle_outputTranscription m ?s1"
  have audio: "handle_audio t m ?s1 = (None, ?s1)"
    by (rule handle_audio_no_fragment [OF assms(4)])
  have final: "snd (onmessage t m s) = handle_interrupted m ?s3"
    using handle_turnComplete_cases [of m ?s3] audio assms(3)
    by (auto simp add: onmessage_unfold)
  show ?thesis
    by (simp add: final handle_interrupted_stop_count [OF assms(1)]
        handle_interrupted_keeps_starts handle_outputTranscription_frame
        handle_inputTranscription_frame)
       (simp add: handle_interrupted_eq [OF assms(1)])
qed

theorem stop_announced_without_start_witness:
  "interruption interruption_signal \<and> sources opened = []
   \<and> fst (onmessage 0 interruption_signal opened) = None
   \<and> base64EncodedAudioString interruption_signal = Inr None
   \<and> trace opened = []
   \<and> trace (snd (onmessage 0 interruption_signal opened)) = [onAIStopSpeaking]"
  using stop_announced_without_start [of interruption_signal opened 0]
  by (simp add: fixture_defs handler_defs interruption_def)

end
